theory Spec2Isabelle
  imports Complex_Main
begin

section \<open>JavaScript strings\<close>

text \<open>
  A JavaScript string is a sequence of UTF-16 code units; a code unit is modelled by its
  number. \<open>ascii\<close> turns a literal of the source into that representation.
\<close>

type_synonym js_string = "nat list"

definition ascii :: "string \<Rightarrow> js_string" where
  "ascii s = map of_char s"

text \<open>The separator of \<^verbatim>\<open>text.split(' ')\<close> and the space of \<^verbatim>\<open>words[n] + ' '\<close>: U+0020.\<close>

definition sp :: nat where
  "sp = 32"

text \<open>
  The code units that \<^verbatim>\<open>String.prototype.trim\<close> strips (ECMAScript WhiteSpace and
  LineTerminator): TAB, LF, VT, FF, CR, SPACE, NBSP, U+1680, U+2000..U+200A, U+2028,
  U+2029, U+202F, U+205F, U+3000 and U+FEFF.
\<close>

definition is_ws :: "nat \<Rightarrow> bool" where
  "is_ws c \<longleftrightarrow>
     c = 9 \<or> c = 10 \<or> c = 11 \<or> c = 12 \<or> c = 13 \<or> c = 32 \<or> c = 160 \<or> c = 5760 \<or>
     (8192 \<le> c \<and> c \<le> 8202) \<or> c = 8232 \<or> c = 8233 \<or> c = 8239 \<or> c = 8287 \<or>
     c = 12288 \<or> c = 65279"

definition js_trim :: "js_string \<Rightarrow> js_string" where
  "js_trim s = rev (dropWhile is_ws (rev (dropWhile is_ws s)))"

text \<open>
  Splitting at every element that satisfies \<open>P\<close>: the pieces between separators, empty
  pieces included, so \<open>n\<close> separators give \<open>n + 1\<close> pieces and the empty string gives
  one empty piece. The last case of the inner \<open>case\<close> is never reached.
\<close>

fun split_when :: "('a \<Rightarrow> bool) \<Rightarrow> 'a list \<Rightarrow> 'a list list" where
  "split_when P [] = [[]]"
| "split_when P (c # cs) =
     (if P c then [] # split_when P cs
      else (case split_when P cs of
              w # ws \<Rightarrow> (c # w) # ws
            | [] \<Rightarrow> [[c]]))"

text \<open>\<^verbatim>\<open>text.split(' ')\<close>\<close>

definition split_space :: "js_string \<Rightarrow> js_string list" where
  "split_space text = split_when (\<lambda>c. c = sp) text"

text \<open>
  The specification's words, "split caption on whitespace into words": the maximal runs
  of non-whitespace code units. This definition follows the specification, not the
  source; the source uses \<open>split_space\<close>.
\<close>

definition ws_words :: "js_string \<Rightarrow> js_string list" where
  "ws_words s = filter (\<lambda>w. w \<noteq> []) (split_when is_ws s)"

section \<open>The caption compositor\<close>

subsection \<open>Font size, width budget, line height\<close>

text \<open>
  \<^verbatim>\<open>Math.max(20, img.width / 20)\<close>, \<^verbatim>\<open>canvas.width * 0.8\<close>. Image dimensions are
  natural numbers; the arithmetic of JavaScript numbers is taken as exact arithmetic on
  reals.
\<close>

definition fontSize :: "nat \<Rightarrow> real" where
  "fontSize w = max 20 (real w / 20)"

definition maxWidth :: "nat \<Rightarrow> real" where
  "maxWidth w = real w * (8 / 10)"

text \<open>
  \<^verbatim>\<open>parseInt(ctx.font)\<close>, where \<^verbatim>\<open>ctx.font\<close> reads back as
  \<^verbatim>\<open>"<size>px Inter, sans-serif"\<close>: \<^verbatim>\<open>parseInt\<close> reads the leading decimal digits and
  stops at the first other character (the decimal point, or \<^verbatim>\<open>p\<close>), which for the
  sizes that occur (at least 20) is the integer part of the size.
\<close>

definition parseInt_font :: "real \<Rightarrow> int" where
  "parseInt_font px = \<lfloor>px\<rfloor>"

text \<open>\<^verbatim>\<open>const lineHeight = parseInt(ctx.font) * 1.2; // 1.2 times font size\<close>\<close>

definition lineHeight :: "nat \<Rightarrow> real" where
  "lineHeight w = real_of_int (parseInt_font (fontSize w)) * (12 / 10)"

subsection \<open>Greedy word wrap\<close>

text \<open>
  The \<^verbatim>\<open>for\<close> loop over \<^verbatim>\<open>words\<close> and the \<^verbatim>\<open>lines.push(line)\<close> after it. The
  fourth argument is the part of \<^verbatim>\<open>words\<close> from index \<open>n\<close> on; \<open>line\<close> and \<open>lines\<close>
  are the loop's two variables.
\<close>

fun wrap_loop ::
  "(js_string \<Rightarrow> real) \<Rightarrow> real \<Rightarrow> nat \<Rightarrow> js_string list \<Rightarrow> js_string \<Rightarrow> js_string list
     \<Rightarrow> js_string list" where
  "wrap_loop mt maxW n [] line lines = lines @ [line]"
| "wrap_loop mt maxW n (w # ws) line lines =
     (let testLine = line @ w @ [sp];
          testWidth = mt testLine
      in if testWidth > maxW \<and> n > 0
         then wrap_loop mt maxW (Suc n) ws (w @ [sp]) (lines @ [line])
         else wrap_loop mt maxW (Suc n) ws testLine lines)"

definition wrap_text :: "(js_string \<Rightarrow> real) \<Rightarrow> real \<Rightarrow> js_string \<Rightarrow> js_string list" where
  "wrap_text mt maxW text = wrap_loop mt maxW 0 (split_space text) [] []"

text \<open>
  The wrap as the specification words it, on a list of words: the current line is the
  list of words it holds (written out with a space after each word); a line is closed
  when the prospective width exceeds the budget and the current line already has at
  least one word; the line in progress is emitted at the end. The result is the list of
  lines, each the list of its words.
\<close>

definition line_of :: "js_string list \<Rightarrow> js_string" where
  "line_of ws = concat (map (\<lambda>w. w @ [sp]) ws)"

fun spec_wrap ::
  "(js_string \<Rightarrow> real) \<Rightarrow> real \<Rightarrow> js_string list \<Rightarrow> js_string list \<Rightarrow> js_string list list" where
  "spec_wrap mt budget cur [] = [cur]"
| "spec_wrap mt budget cur (w # ws) =
     (if mt (line_of cur @ w @ [sp]) > budget \<and> cur \<noteq> []
      then cur # spec_wrap mt budget [w] ws
      else spec_wrap mt budget (cur @ [w]) ws)"

subsection \<open>Canvas and drawing\<close>

record image =
  src :: js_string
  width :: nat
  height :: nat

datatype draw_op =
    DrawImage image real real
  | FillText js_string real real

fun op_y :: "draw_op \<Rightarrow> real" where
  "op_y (DrawImage i x y) = y"
| "op_y (FillText t x y) = y"

record canvas =
  c_width :: nat
  c_height :: nat
  font_px :: real
  fillStyle :: string
  textAlign :: string
  textBaseline :: string
  shadowColor :: string
  shadowBlur :: real
  shadowOffsetX :: real
  shadowOffsetY :: real
  ops :: "draw_op list"

text \<open>
  \<^verbatim>\<open>lines.forEach((l) => { ctx.fillText(l.trim(), canvas.width / 2, y); y += lineHeight; })\<close>
\<close>

fun draw_lines :: "real \<Rightarrow> real \<Rightarrow> real \<Rightarrow> js_string list \<Rightarrow> draw_op list" where
  "draw_lines x y lh [] = []"
| "draw_lines x y lh (l # ls) = FillText (js_trim l) x y # draw_lines x (y + lh) lh ls"

text \<open>\<^verbatim>\<open>canvas.height / 2 - (lines.length - 1) * lineHeight / 2\<close>\<close>

definition start_y :: "nat \<Rightarrow> nat \<Rightarrow> real \<Rightarrow> real" where
  "start_y h n lh = real h / 2 - (real n - 1) * lh / 2"

text \<open>
  What the browser supplies: the network, the image decoder (\<open>None\<close> when the image
  fails to load), the text metrics of a font of a given pixel size, and the PNG encoder
  behind \<^verbatim>\<open>canvas.toDataURL\<close>.
\<close>

record request =
  url :: js_string
  instances_prompt :: js_string
  sampleCount :: nat

text \<open>
  A value whose \<^verbatim>\<open>bytesBase64Encoded\<close> reads as a string (\<open>Some\<close>) or as
  \<^verbatim>\<open>undefined\<close> (\<open>None\<close>: an object without the property, or a number, a string or a
  boolean).
\<close>

datatype prediction = Prediction (bytesBase64Encoded: "js_string option")

text \<open>
  An element of the array \<^verbatim>\<open>result.predictions\<close>, which is parsed JSON and can hold any
  value. \<open>NullEntry\<close> is \<^verbatim>\<open>null\<close>: reading a property of it throws a TypeError.
  \<open>OtherPayload t s\<close> is an object whose \<^verbatim>\<open>bytesBase64Encoded\<close> is a value \<open>v\<close> that is
  neither a string nor absent (\<^verbatim>\<open>null\<close>, a boolean, a number, an array, an object):
  \<open>t\<close> is its truth value in \<^verbatim>\<open>if (v)\<close> and \<open>s\<close> the string that the template
  literal makes of it.
\<close>

datatype entry =
    NullEntry
  | Entry prediction
  | OtherPayload bool js_string

text \<open>
  What \<^verbatim>\<open>generateImages\<close> can get back. \<open>Transport m\<close>: an error of message \<open>m\<close> is
  thrown before the predictions are mapped, by \<^verbatim>\<open>fetch\<close>, by \<^verbatim>\<open>response.json()\<close>, or
  by a body that is not of the expected shape (\<^verbatim>\<open>result\<close> is \<^verbatim>\<open>null\<close>, or
  \<^verbatim>\<open>result.predictions\<close> has a positive \<^verbatim>\<open>length\<close> and no \<^verbatim>\<open>map\<close>). \<open>Rejected m\<close>:
  \<^verbatim>\<open>response.ok\<close> is false, \<open>m\<close> being \<^verbatim>\<open>errorData.error?.message\<close>. \<open>Predictions ps\<close>:
  the call succeeded, \<open>ps\<close> being the array \<^verbatim>\<open>result.predictions\<close>, \<open>None\<close> when it
  is absent, falsy or without a positive \<^verbatim>\<open>length\<close>.
\<close>

datatype service_reply =
    Transport js_string
  | Rejected "js_string option"
  | Predictions "entry list option"

text \<open>
  \<open>nullReadMessage\<close> is the message of the TypeError that the engine throws for
  \<^verbatim>\<open>prediction.bytesBase64Encoded\<close> when \<^verbatim>\<open>prediction\<close> is \<^verbatim>\<open>null\<close>.
\<close>

record env =
  fetch :: "request \<Rightarrow> service_reply"
  decode :: "js_string \<Rightarrow> image option"
  measureText :: "real \<Rightarrow> js_string \<Rightarrow> real"
  encodePNG :: "canvas \<Rightarrow> js_string"
  nullReadMessage :: js_string

text \<open>The body of \<^verbatim>\<open>img.onload\<close> up to the \<^verbatim>\<open>resolve\<close>.\<close>

definition wrapped_lines :: "env \<Rightarrow> nat \<Rightarrow> js_string \<Rightarrow> js_string list" where
  "wrapped_lines e w text = wrap_text (measureText e (fontSize w)) (maxWidth w) text"

definition render_overlay :: "env \<Rightarrow> image \<Rightarrow> js_string \<Rightarrow> canvas" where
  "render_overlay e img text =
     (let lines = wrapped_lines e (width img) text;
          lh = lineHeight (width img);
          y = start_y (height img) (length lines) lh
      in \<lparr> c_width = width img, c_height = height img,
           font_px = fontSize (width img),
           fillStyle = ''white'', textAlign = ''center'', textBaseline = ''middle'',
           shadowColor = ''rgba(0, 0, 0, 0.7)'', shadowBlur = 5,
           shadowOffsetX = 2, shadowOffsetY = 2,
           ops = DrawImage img 0 0 # draw_lines (real (width img) / 2) y lh lines \<rparr>)"

text \<open>\<^verbatim>\<open>canvas.toDataURL('image/png')\<close>\<close>

definition toDataURL :: "env \<Rightarrow> canvas \<Rightarrow> js_string" where
  "toDataURL e c = ascii ''data:image/png;base64,'' @ encodePNG e c"

text \<open>The promise of \<^verbatim>\<open>overlayTextOnImage\<close> only ever resolves; its value is the result.\<close>

definition overlayTextOnImage :: "env \<Rightarrow> js_string \<Rightarrow> js_string \<Rightarrow> js_string" where
  "overlayTextOnImage e imageUrl text =
     (case decode e imageUrl of
        None \<Rightarrow> imageUrl
      | Some img \<Rightarrow> toDataURL e (render_overlay e img text))"

section \<open>The generation client\<close>

record app_state =
  prompt :: js_string
  customText :: js_string
  generatedImages :: "js_string list"
  loading :: bool
  error :: js_string
  message :: js_string
  apiKey :: js_string

definition data_url :: "js_string \<Rightarrow> js_string" where
  "data_url b = ascii ''data:image/png;base64,'' @ b"

text \<open>The callback of \<^verbatim>\<open>result.predictions.map\<close>; \<open>None\<close> is \<^verbatim>\<open>null\<close>.\<close>

definition process_prediction :: "env \<Rightarrow> js_string \<Rightarrow> prediction \<Rightarrow> js_string option" where
  "process_prediction e text p =
     (case bytesBase64Encoded p of
        None \<Rightarrow> None
      | Some b \<Rightarrow>
          if b \<noteq> [] then
            (let imageUrl = data_url b
             in if js_trim text \<noteq> [] then Some (overlayTextOnImage e imageUrl text)
                else Some imageUrl)
          else None)"

text \<open>
  Lines 103 to 107 for a payload that is truthy and whose string in the template
  literal is \<open>b\<close>: the image shown for it.
\<close>

definition output_of :: "env \<Rightarrow> js_string \<Rightarrow> js_string \<Rightarrow> js_string" where
  "output_of e c b = (if js_trim c \<noteq> [] then overlayTextOnImage e (data_url b) c else data_url b)"

text \<open>
  The promise that the \<^verbatim>\<open>async\<close> callback returns for an element of the array: rejected
  (\<open>Inl\<close>, with the error's message) when reading the property throws, else fulfilled
  with the callback's value.
\<close>

definition map_callback :: "env \<Rightarrow> js_string \<Rightarrow> entry \<Rightarrow> js_string + js_string option" where
  "map_callback e text en =
     (case en of
        NullEntry \<Rightarrow> Inl (nullReadMessage e)
      | Entry p \<Rightarrow> Inr (process_prediction e text p)
      | OtherPayload truthy s \<Rightarrow> Inr (if truthy then Some (output_of e text s) else None))"

text \<open>
  \<^verbatim>\<open>Promise.all\<close>: rejected with the reason of a rejected promise, else fulfilled with
  the values in the order of the array. Every rejection here has the same reason.
\<close>

fun promise_all :: "('e + 'a) list \<Rightarrow> 'e + 'a list" where
  "promise_all [] = Inr []"
| "promise_all (Inl err # rs) = Inl err"
| "promise_all (Inr v # rs) =
     (case promise_all rs of Inl err \<Rightarrow> Inl err | Inr vs \<Rightarrow> Inr (v # vs))"

text \<open>\<^verbatim>\<open>imagesWithText.filter(Boolean)\<close>: \<^verbatim>\<open>null\<close> and the empty string are falsy.\<close>

fun filter_Boolean :: "js_string option list \<Rightarrow> js_string list" where
  "filter_Boolean [] = []"
| "filter_Boolean (None # rs) = filter_Boolean rs"
| "filter_Boolean (Some s # rs) = (if s \<noteq> [] then s # filter_Boolean rs else filter_Boolean rs)"

definition prompt_notice :: js_string where
  "prompt_notice = ascii ''Please enter a prompt to generate images.''"

definition apiKey_notice :: js_string where
  "apiKey_notice = ascii ''Please enter your Gemini API Key to generate images.''"

definition make_request :: "app_state \<Rightarrow> request" where
  "make_request st =
     \<lparr> url = ascii ''https://generativelanguage.googleapis.com/v1beta/models/imagen-3.0-generate-002:predict?key='' @ apiKey st,
       instances_prompt = prompt st,
       sampleCount = 3 \<rparr>"

text \<open>\<^verbatim>\<open>a || b\<close> on strings: the empty string is falsy.\<close>

definition or_else :: "js_string \<Rightarrow> js_string \<Rightarrow> js_string" where
  "or_else a b = (if a \<noteq> [] then a else b)"

text \<open>
  \<^verbatim>\<open>generateImages\<close>: the state when the function has returned, and the network
  requests it has issued, in order.
\<close>

definition generateImages :: "env \<Rightarrow> app_state \<Rightarrow> app_state \<times> request list" where
  "generateImages e st =
     (if js_trim (prompt st) = [] then (st\<lparr>message := prompt_notice\<rparr>, [])
      else if js_trim (apiKey st) = [] then (st\<lparr>message := apiKey_notice\<rparr>, [])
      else
        (let st1 = st\<lparr>loading := True, error := [], generatedImages := []\<rparr>;
             req = make_request st;
             st2 =
               (case fetch e req of
                  Transport msg \<Rightarrow>
                    st1\<lparr>error := or_else msg
                      (ascii ''An unexpected error occurred during image generation.'')\<rparr>
                | Rejected m \<Rightarrow>
                    st1\<lparr>error := or_else
                      (or_else (case m of None \<Rightarrow> [] | Some s \<Rightarrow> s)
                         (ascii ''Failed to generate images. Please check your API key and prompt.''))
                      (ascii ''An unexpected error occurred during image generation.'')\<rparr>
                | Predictions None \<Rightarrow>
                    st1\<lparr>error := ascii ''No images were generated. Please try a different prompt.''\<rparr>
                | Predictions (Some []) \<Rightarrow>
                    st1\<lparr>error := ascii ''No images were generated. Please try a different prompt.''\<rparr>
                | Predictions (Some (p # ps)) \<Rightarrow>
                    (case promise_all (map (map_callback e (customText st)) (p # ps)) of
                       Inl msg \<Rightarrow>
                         st1\<lparr>error := or_else msg
                           (ascii ''An unexpected error occurred during image generation.'')\<rparr>
                     | Inr imagesWithText \<Rightarrow>
                         st1\<lparr>generatedImages := filter_Boolean imagesWithText\<rparr>))
         in (st2\<lparr>loading := False\<rparr>, [req])))"

text \<open>\<^verbatim>\<open>handleCloseMessage\<close>\<close>

definition handleCloseMessage :: "app_state \<Rightarrow> app_state" where
  "handleCloseMessage st = st\<lparr>message := []\<rparr>"

text \<open>
  \<open>entries_of\<close>: the elements of \<^verbatim>\<open>result.predictions\<close> in a reply, none when the call
  failed or the reply has no predictions. \<open>predictions_of\<close>: the elements from which
  images are made, which are all of them unless one is \<^verbatim>\<open>null\<close>, and then none.
  \<open>payload_of\<close>: the payload of an element whose \<^verbatim>\<open>bytesBase64Encoded\<close> is truthy (for a
  string: not empty), as the string it gives in the data URL. \<open>retained\<close>: the payloads
  of the elements that have one, in order.
\<close>

definition entries_of :: "service_reply \<Rightarrow> entry list" where
  "entries_of r = (case r of Predictions (Some es) \<Rightarrow> es | _ \<Rightarrow> [])"

definition predictions_of :: "service_reply \<Rightarrow> entry list" where
  "predictions_of r = (if NullEntry \<in> set (entries_of r) then [] else entries_of r)"

fun payload_of :: "entry \<Rightarrow> js_string option" where
  "payload_of NullEntry = None"
| "payload_of (Entry p) =
     (case bytesBase64Encoded p of None \<Rightarrow> None | Some b \<Rightarrow> if b \<noteq> [] then Some b else None)"
| "payload_of (OtherPayload truthy s) = (if truthy then Some s else None)"

definition retained :: "entry list \<Rightarrow> js_string list" where
  "retained es = List.map_filter payload_of es"

section \<open>A fixed-pitch test environment\<close>

text \<open>
  A font in which every code unit advances by the same amount (half the font size in
  \<open>test_env\<close>), a decoder for which every URL is an image of 100 by 60, a service
  that answers with three predictions of which the second has no payload, and an
  encoder with a fixed output.
\<close>

definition fixed_pitch :: "real \<Rightarrow> js_string \<Rightarrow> real" where
  "fixed_pitch adv s = adv * real (length s)"

definition test_env :: env where
  "test_env =
     \<lparr> fetch = (\<lambda>r. Predictions (Some [Entry (Prediction (Some (ascii ''iVBORw0KGgo=''))),
                                         Entry (Prediction None),
                                         Entry (Prediction (Some (ascii ''R0lGODlhAQABAA=='')))])),
       decode = (\<lambda>u. Some \<lparr> src = u, width = 100, height = 60 \<rparr>),
       measureText = (\<lambda>px. fixed_pitch (px / 2)),
       encodePNG = (\<lambda>c. ascii ''iVBORw0KGgoAAAANSUhEUg==''),
       nullReadMessage = ascii ''Cannot read properties of null'' \<rparr>"

text \<open>
  A state with a prompt, a caption and a key; a service that answers with four
  predictions while no image decodes; a caption of a space, a tab and a no-break space.
\<close>

definition test_state :: app_state where
  "test_state =
     \<lparr> prompt = ascii ''a red balloon'', customText = ascii ''Sale Now'',
       generatedImages = [], loading = False, error = [], message = [],
       apiKey = ascii ''AIzaSyExample'' \<rparr>"

definition undecodable_env :: env where
  "undecodable_env =
     \<lparr> fetch = (\<lambda>r. Predictions (Some [Entry (Prediction (Some (ascii ''AAAA''))),
                                         Entry (Prediction (Some (ascii ''BBBB''))),
                                         Entry (Prediction (Some (ascii ''CCCC''))),
                                         Entry (Prediction (Some (ascii ''DDDD'')))])),
       decode = (\<lambda>u. None),
       measureText = (\<lambda>px. fixed_pitch (px / 2)),
       encodePNG = (\<lambda>c. ascii ''iVBORw0KGgoAAAANSUhEUg==''),
       nullReadMessage = ascii ''Cannot read properties of null'' \<rparr>"

definition blank_caption :: js_string where
  "blank_caption = [32, 9, 160]"

section \<open>Auxiliary notions\<close>

text \<open>A line that is empty or ends in a whitespace code unit.\<close>

definition ends_ws :: "js_string \<Rightarrow> bool" where
  "ends_ws l \<longleftrightarrow> l = [] \<or> is_ws (last l)"

text \<open>
  A line that holds exactly one piece of \<^verbatim>\<open>text.split(' ')\<close>: a run without a space,
  followed by the space the loop appends. \<open>fits\<close>: within the budget as the loop measures
  it, or such a single piece.
\<close>

definition single_piece :: "js_string \<Rightarrow> bool" where
  "single_piece l \<longleftrightarrow> l \<noteq> [] \<and> last l = sp \<and> sp \<notin> set (butlast l)"

definition fits :: "(js_string \<Rightarrow> real) \<Rightarrow> real \<Rightarrow> js_string \<Rightarrow> bool" where
  "fits mt b l \<longleftrightarrow> mt l \<le> b \<or> single_piece l"

text \<open>A line, as the list of its pieces, in which a piece wider than the budget is alone.\<close>

definition alone_if_wide :: "(js_string \<Rightarrow> real) \<Rightarrow> real \<Rightarrow> js_string list \<Rightarrow> bool" where
  "alone_if_wide mt b blk \<longleftrightarrow> (\<forall>p \<in> set blk. b < mt p \<longrightarrow> blk = [p])"

section \<open>Splitting and trimming\<close>

lemma split_when_not_Nil [simp]: "split_when P s \<noteq> []"
  by (induction s) (auto split: list.splits)

lemma split_when_append_sep:
  "P d \<Longrightarrow> split_when P (a @ d # b) = split_when P a @ split_when P b"
  by (induction a) (auto split: list.splits)

lemma split_when_pieces: "\<forall>w \<in> set (split_when P s). \<forall>c \<in> set w. \<not> P c"
  by (induction s) (auto split: list.splits)

lemma split_when_join:
  "concat (map (\<lambda>w. w @ [d]) (split_when (\<lambda>c. c = d) s)) = s @ [d]"
  by (induction s) (auto split: list.splits)

lemma split_when_cong:
  "(\<And>c. c \<in> set s \<Longrightarrow> P c = Q c) \<Longrightarrow> split_when P s = split_when Q s"
  by (induction s) (auto split: list.splits)

lemma is_ws_sp [simp]: "is_ws sp"
  by (simp add: is_ws_def sp_def)

lemma ws_words_Nil [simp]: "ws_words [] = []"
  by (simp add: ws_words_def)

lemma ws_words_append_ws:
  "is_ws d \<Longrightarrow> ws_words (a @ d # b) = ws_words a @ ws_words b"
  by (simp add: ws_words_def split_when_append_sep)

lemma ws_words_snoc_ws: "is_ws d \<Longrightarrow> ws_words (a @ [d]) = ws_words a"
  using ws_words_append_ws [of d a "[]"] by simp

lemma ws_words_Cons_ws: "is_ws d \<Longrightarrow> ws_words (d # b) = ws_words b"
  using ws_words_append_ws [of d "[]" b] by simp

lemma ws_words_dropWhile: "ws_words (dropWhile is_ws s) = ws_words s"
  by (induction s) (auto simp: ws_words_Cons_ws)

lemma ws_words_rev_dropWhile: "ws_words (rev (dropWhile is_ws (rev s))) = ws_words s"
  by (induction s rule: rev_induct) (auto simp: ws_words_snoc_ws)

lemma ws_words_trim: "ws_words (js_trim s) = ws_words s"
  by (simp add: js_trim_def ws_words_rev_dropWhile ws_words_dropWhile)

section \<open>The wrap keeps the words of the caption\<close>

lemma ws_words_append_ends: "ends_ws a \<Longrightarrow> ws_words (a @ b) = ws_words a @ ws_words b"
proof (cases "a = []")
  case True
  then show ?thesis by simp
next
  case False
  assume "ends_ws a"
  with False have w: "is_ws (last a)" by (simp add: ends_ws_def)
  from False have a: "a = butlast a @ [last a]" by simp
  have "ws_words (a @ b) = ws_words (butlast a @ last a # b)"
    by (subst a) simp
  also have "\<dots> = ws_words (butlast a) @ ws_words b"
    using w by (rule ws_words_append_ws)
  also have "ws_words (butlast a) = ws_words a"
    using ws_words_snoc_ws [OF w, of "butlast a"] a by simp
  finally show ?thesis .
qed

lemma ws_words_concat:
  "\<forall>l \<in> set ls. ends_ws l \<Longrightarrow> ws_words (concat ls) = concat (map ws_words ls)"
  by (induction ls) (auto simp: ws_words_append_ends)

lemma wrap_loop_concat:
  "concat (wrap_loop mt b n ws line lines) = concat lines @ line @ line_of ws"
  by (induction ws arbitrary: n line lines) (auto simp: Let_def line_of_def)

lemma wrap_loop_ends_ws:
  "ends_ws line \<Longrightarrow> \<forall>l \<in> set lines. ends_ws l \<Longrightarrow>
   \<forall>l \<in> set (wrap_loop mt b n ws line lines). ends_ws l"
proof (induction ws arbitrary: n line lines)
  case Nil
  then show ?case by simp
next
  case (Cons w ws)
  have e1: "ends_ws (w @ [sp])" and e2: "ends_ws (line @ w @ [sp])"
    by (simp_all add: ends_ws_def)
  show ?case
    using Cons.IH [OF e1, of "lines @ [line]"] Cons.IH [OF e2, of lines] Cons.prems
    by (simp add: Let_def)
qed

lemma line_of_split_space: "line_of (split_space c) = c @ [sp]"
  by (simp add: line_of_def split_space_def split_when_join)

lemma wrap_text_concat: "concat (wrap_text mt b c) = c @ [sp]"
  by (simp add: wrap_text_def wrap_loop_concat line_of_split_space)

lemma wrap_text_ends_ws: "\<forall>l \<in> set (wrap_text mt b c). ends_ws l"
  unfolding wrap_text_def by (rule wrap_loop_ends_ws) (simp_all add: ends_ws_def)

text \<open>
  C2. Whatever the font metrics and the width, the whitespace-separated words of the
  lines produced by the wrap are the whitespace-separated words of the caption, in
  order: of the lines concatenated, of the lines taken one by one, and of the lines as
  they are drawn (trimmed).
\<close>

theorem wrap_preserves_words:
  "ws_words (concat (wrapped_lines e w c)) = ws_words c \<and>
   concat (map ws_words (wrapped_lines e w c)) = ws_words c \<and>
   concat (map (\<lambda>l. ws_words (js_trim l)) (wrapped_lines e w c)) = ws_words c"
proof -
  let ?ls = "wrapped_lines e w c"
  have a: "ws_words (concat ?ls) = ws_words c"
    by (simp add: wrapped_lines_def wrap_text_concat ws_words_snoc_ws)
  have "\<forall>l \<in> set ?ls. ends_ws l"
    by (simp add: wrapped_lines_def wrap_text_ends_ws)
  then have b: "concat (map ws_words ?ls) = ws_words (concat ?ls)"
    by (simp add: ws_words_concat)
  show ?thesis using a b by (simp add: ws_words_trim)
qed

section \<open>The wrap is the greedy wrap\<close>

lemma line_of_snoc: "line_of (cur @ [w]) = line_of cur @ w @ [sp]"
  by (simp add: line_of_def)

lemma wrap_loop_spec_wrap:
  "(0 < n \<longleftrightarrow> cur \<noteq> []) \<Longrightarrow>
   wrap_loop mt b n ws (line_of cur) lines = lines @ map line_of (spec_wrap mt b cur ws)"
proof (induction ws arbitrary: n cur lines)
  case Nil
  then show ?case by simp
next
  case (Cons w ws)
  have one: "line_of [w] = w @ [sp]" by (simp add: line_of_def)
  have a: "wrap_loop mt b (Suc n) ws (line_of [w]) (lines @ [line_of cur])
      = (lines @ [line_of cur]) @ map line_of (spec_wrap mt b [w] ws)"
    by (rule Cons.IH) simp
  have b: "wrap_loop mt b (Suc n) ws (line_of (cur @ [w])) lines
      = lines @ map line_of (spec_wrap mt b (cur @ [w]) ws)"
    by (rule Cons.IH) simp
  show ?case
    using a b Cons.prems by (simp add: Let_def one line_of_snoc)
qed

lemma spec_wrap_concat: "concat (spec_wrap mt b cur ws) = cur @ ws"
  by (induction ws arbitrary: cur) simp_all

lemma spec_wrap_no_empty_line:
  "cur \<noteq> [] \<or> ws \<noteq> [] \<Longrightarrow> [] \<notin> set (spec_wrap mt b cur ws)"
  by (induction ws arbitrary: cur) auto

lemma piece_in_line_of: "p \<in> set ws \<Longrightarrow> \<exists>a c. line_of ws = a @ p @ c"
proof -
  assume "p \<in> set ws"
  then obtain xs ys where "ws = xs @ p # ys" by (auto simp: in_set_conv_decomp)
  then have "line_of ws = line_of xs @ p @ ([sp] @ line_of ys)"
    by (simp add: line_of_def)
  then show ?thesis by blast
qed

lemma spec_wrap_wide_alone:
  "\<forall>a s c. mt s \<le> mt (a @ s @ c) \<Longrightarrow> alone_if_wide mt b cur \<Longrightarrow>
   \<forall>blk \<in> set (spec_wrap mt b cur ws). alone_if_wide mt b blk"
proof (induction ws arbitrary: cur)
  case Nil
  then show ?case by simp
next
  case (Cons w ws)
  show ?case
  proof (cases "mt (line_of cur @ w @ [sp]) > b \<and> cur \<noteq> []")
    case True
    have "alone_if_wide mt b [w]" by (simp add: alone_if_wide_def)
    then have "\<forall>blk \<in> set (spec_wrap mt b [w] ws). alone_if_wide mt b blk"
      by (rule Cons.IH [OF Cons.prems(1)])
    moreover have "spec_wrap mt b cur (w # ws) = cur # spec_wrap mt b [w] ws"
      by (simp only: spec_wrap.simps if_P [OF True])
    ultimately show ?thesis using Cons.prems(2) by simp
  next
    case False
    have "alone_if_wide mt b (cur @ [w])"
    proof (cases "cur = []")
      case True
      then show ?thesis by (simp add: alone_if_wide_def)
    next
      case nonempty: False
      with False have le: "mt (line_of (cur @ [w])) \<le> b" by (simp add: line_of_snoc)
      have "mt p \<le> b" if "p \<in> set (cur @ [w])" for p
      proof -
        from piece_in_line_of [OF that] obtain a c where "line_of (cur @ [w]) = a @ p @ c"
          by blast
        with Cons.prems(1) have "mt p \<le> mt (line_of (cur @ [w]))" by simp
        with le show ?thesis by simp
      qed
      then show ?thesis unfolding alone_if_wide_def by (meson not_le)
    qed
    then have "\<forall>blk \<in> set (spec_wrap mt b (cur @ [w]) ws). alone_if_wide mt b blk"
      by (rule Cons.IH [OF Cons.prems(1)])
    moreover have "spec_wrap mt b cur (w # ws) = spec_wrap mt b (cur @ [w]) ws"
      by (simp only: spec_wrap.simps if_not_P [OF False])
    ultimately show ?thesis by (simp only:)
  qed
qed

lemma split_space_eq_ws_words:
  "[] \<notin> set (split_space c) \<Longrightarrow> list_all (\<lambda>ch. is_ws ch \<longrightarrow> ch = sp) c \<Longrightarrow>
   split_space c = ws_words c"
proof -
  assume ne: "[] \<notin> set (split_space c)" and only: "list_all (\<lambda>ch. is_ws ch \<longrightarrow> ch = sp) c"
  have "split_when (\<lambda>ch. ch = sp) c = split_when is_ws c"
    by (rule split_when_cong) (use only in \<open>auto simp: list_all_iff\<close>)
  then have eq: "split_space c = split_when is_ws c"
    by (simp add: split_space_def)
  with ne have "\<forall>x \<in> set (split_when is_ws c). x \<noteq> []"
    by auto
  then have "filter (\<lambda>w. w \<noteq> []) (split_when is_ws c) = split_when is_ws c"
    by (simp add: filter_id_conv)
  with eq show ?thesis
    by (simp add: ws_words_def)
qed

text \<open>
  C1, as the code has it. The wrap of the code is the greedy wrap of the specification
  run on the pieces of \<^verbatim>\<open>text.split(' ')\<close>: pieces are appended in order, the
  prospective line (current line, candidate, one space) is measured with the font of
  the chosen size, and the current line is closed exactly when that width exceeds
  \<open>0.8 * W\<close> and the current line already holds a piece. The lines partition the
  pieces in order (no piece is split, dropped or repeated), no line is without a piece
  (the line in progress is emitted at the end), and under metrics that never shrink
  when text is added around a string, a piece wider than the budget is alone on its
  line. A piece may be empty (a leading, trailing or doubled space) and may contain
  whitespace other than U+0020; when the caption is not empty and has neither, the
  pieces are its whitespace-separated words.
\<close>

theorem wrap_is_greedy:
  "wrapped_lines e w c
     = map line_of (spec_wrap (measureText e (fontSize w)) (maxWidth w) [] (split_space c)) \<and>
   concat (spec_wrap (measureText e (fontSize w)) (maxWidth w) [] (split_space c)) = split_space c \<and>
   [] \<notin> set (spec_wrap (measureText e (fontSize w)) (maxWidth w) [] (split_space c)) \<and>
   ((\<forall>a s b. measureText e (fontSize w) s \<le> measureText e (fontSize w) (a @ s @ b)) \<longrightarrow>
      (\<forall>blk \<in> set (spec_wrap (measureText e (fontSize w)) (maxWidth w) [] (split_space c)).
         \<forall>p \<in> set blk. maxWidth w < measureText e (fontSize w) p \<longrightarrow> blk = [p])) \<and>
   ([] \<notin> set (split_space c) \<and> list_all (\<lambda>ch. is_ws ch \<longrightarrow> ch = sp) c \<longrightarrow>
      split_space c = ws_words c)"
proof -
  let ?mt = "measureText e (fontSize w)"
  let ?b = "maxWidth w"
  have ref: "wrapped_lines e w c = map line_of (spec_wrap ?mt ?b [] (split_space c))"
    using wrap_loop_spec_wrap [of 0 "[]" ?mt ?b "split_space c" "[]"]
    by (simp add: wrapped_lines_def wrap_text_def line_of_def)
  have ne: "split_space c \<noteq> []" by (simp add: split_space_def)
  have alone: "\<forall>blk \<in> set (spec_wrap ?mt ?b [] (split_space c)).
         \<forall>p \<in> set blk. ?b < ?mt p \<longrightarrow> blk = [p]"
    if mono: "\<forall>a s b. ?mt s \<le> ?mt (a @ s @ b)"
  proof -
    have "alone_if_wide ?mt ?b []" by (simp add: alone_if_wide_def)
    from spec_wrap_wide_alone [OF mono this] show ?thesis
      unfolding alone_if_wide_def .
  qed
  have cat: "concat (spec_wrap ?mt ?b [] (split_space c)) = split_space c"
    by (simp add: spec_wrap_concat)
  have nonempty: "[] \<notin> set (spec_wrap ?mt ?b [] (split_space c))"
    using ne by (simp add: spec_wrap_no_empty_line)
  have same: "split_space c = ws_words c"
    if "[] \<notin> set (split_space c) \<and> list_all (\<lambda>ch. is_ws ch \<longrightarrow> ch = sp) c"
    using that split_space_eq_ws_words by blast
  show ?thesis
  proof (intro conjI impI)
    show "wrapped_lines e w c = map line_of (spec_wrap ?mt ?b [] (split_space c))"
      by (rule ref)
    show "concat (spec_wrap ?mt ?b [] (split_space c)) = split_space c"
      by (rule cat)
    show "[] \<notin> set (spec_wrap ?mt ?b [] (split_space c))"
      by (rule nonempty)
    show "\<forall>blk \<in> set (spec_wrap ?mt ?b [] (split_space c)).
         \<forall>p \<in> set blk. ?b < ?mt p \<longrightarrow> blk = [p]"
      if "\<forall>a s b. ?mt s \<le> ?mt (a @ s @ b)"
      using that by (rule alone)
    show "split_space c = ws_words c"
      if "[] \<notin> set (split_space c) \<and> list_all (\<lambda>ch. is_ws ch \<longrightarrow> ch = sp) c"
      using that by (rule same)
  qed
qed

theorem wrap_is_greedy_witness:
  "(\<forall>a s b. measureText test_env (fontSize 100) s \<le> measureText test_env (fontSize 100) (a @ s @ b)) \<and>
   [] \<notin> set (split_space (ascii ''Big Congratulations Sale'')) \<and>
   list_all (\<lambda>ch. is_ws ch \<longrightarrow> ch = sp) (ascii ''Big Congratulations Sale'') \<and>
   split_space (ascii ''Big Congratulations Sale'') = ws_words (ascii ''Big Congratulations Sale'') \<and>
   ws_words (ascii ''Big Congratulations Sale'') = [ascii ''Big'', ascii ''Congratulations'', ascii ''Sale''] \<and>
   maxWidth 100 < measureText test_env (fontSize 100) (ascii ''Congratulations'') \<and>
   spec_wrap (measureText test_env (fontSize 100)) (maxWidth 100) []
       (split_space (ascii ''Big Congratulations Sale''))
     = [[ascii ''Big''], [ascii ''Congratulations''], [ascii ''Sale'']] \<and>
   wrapped_lines test_env 100 (ascii ''Big Congratulations Sale'')
     = [ascii ''Big '', ascii ''Congratulations '', ascii ''Sale '']"
proof -
  have mono: "\<forall>a s b. measureText test_env (fontSize 100) s
      \<le> measureText test_env (fontSize 100) (a @ s @ b)"
    by (simp add: test_env_def fixed_pitch_def fontSize_def)
  have pieces: "split_space (ascii ''Big Congratulations Sale'')
      = [ascii ''Big'', ascii ''Congratulations'', ascii ''Sale'']"
    by (simp add: split_space_def ascii_def sp_def)
  have only: "list_all (\<lambda>ch. is_ws ch \<longrightarrow> ch = sp) (ascii ''Big Congratulations Sale'')"
    by (simp add: ascii_def is_ws_def sp_def)
  have blocks: "spec_wrap (measureText test_env (fontSize 100)) (maxWidth 100) []
       [ascii ''Big'', ascii ''Congratulations'', ascii ''Sale'']
     = [[ascii ''Big''], [ascii ''Congratulations''], [ascii ''Sale'']]"
    by (simp add: line_of_def test_env_def fixed_pitch_def fontSize_def maxWidth_def ascii_def sp_def)
  have wide: "maxWidth 100 < measureText test_env (fontSize 100) (ascii ''Congratulations'')"
    by (simp add: test_env_def fixed_pitch_def fontSize_def maxWidth_def ascii_def)
  from wrap_is_greedy [of test_env 100 "ascii ''Big Congratulations Sale''"]
  have lines: "wrapped_lines test_env 100 (ascii ''Big Congratulations Sale'')
       = map line_of (spec_wrap (measureText test_env (fontSize 100)) (maxWidth 100) []
           (split_space (ascii ''Big Congratulations Sale'')))"
    and same: "[] \<notin> set (split_space (ascii ''Big Congratulations Sale'')) \<and>
       list_all (\<lambda>ch. is_ws ch \<longrightarrow> ch = sp) (ascii ''Big Congratulations Sale'') \<longrightarrow>
       split_space (ascii ''Big Congratulations Sale'') = ws_words (ascii ''Big Congratulations Sale'')"
    by (rule conjunct1, elim conjE)
  have ne: "[] \<notin> set (split_space (ascii ''Big Congratulations Sale''))"
    unfolding pieces by (simp add: ascii_def)
  from same ne only
  have eq: "split_space (ascii ''Big Congratulations Sale'') = ws_words (ascii ''Big Congratulations Sale'')"
    by simp
  have out: "wrapped_lines test_env 100 (ascii ''Big Congratulations Sale'')
     = [ascii ''Big '', ascii ''Congratulations '', ascii ''Sale '']"
    unfolding lines pieces blocks by (simp add: line_of_def ascii_def sp_def)
  show ?thesis
    using mono ne only eq wide blocks out pieces by (simp only: simp_thms)
qed

text \<open>
  On whitespace-separated words the claim fails: for the caption \<open>" Congratulations"\<close>
  (a leading space) at width 100 the code closes a first line that holds no word and
  draws two lines, where the wrap of the specification on the caption's words gives
  the single line \<open>"Congratulations"\<close>.
\<close>

theorem empty_piece_counterexample:
  "wrapped_lines test_env 100 (ascii '' Congratulations'') = [ascii '' '', ascii ''Congratulations ''] \<and>
   map js_trim (wrapped_lines test_env 100 (ascii '' Congratulations''))
     = [[], ascii ''Congratulations''] \<and>
   ws_words (hd (wrapped_lines test_env 100 (ascii '' Congratulations''))) = [] \<and>
   ws_words (ascii '' Congratulations'') = [ascii ''Congratulations''] \<and>
   spec_wrap (measureText test_env (fontSize 100)) (maxWidth 100) [] (ws_words (ascii '' Congratulations''))
     = [[ascii ''Congratulations'']] \<and>
   wrapped_lines test_env 100 (ascii '' Congratulations'')
     \<noteq> map line_of (spec_wrap (measureText test_env (fontSize 100)) (maxWidth 100) []
           (ws_words (ascii '' Congratulations''))) \<and>
   map js_trim (wrapped_lines test_env 100 (ascii '' Congratulations''))
     \<noteq> map (\<lambda>ws. js_trim (line_of ws))
           (spec_wrap (measureText test_env (fontSize 100)) (maxWidth 100) []
              (ws_words (ascii '' Congratulations'')))"
  by (simp add: wrapped_lines_def wrap_text_def split_space_def Let_def test_env_def line_of_def
      fixed_pitch_def fontSize_def maxWidth_def js_trim_def is_ws_def ws_words_def ascii_def sp_def)

section \<open>Lines and the width budget\<close>

lemma single_piece_snoc: "sp \<notin> set w \<Longrightarrow> single_piece (w @ [sp])"
  by (simp add: single_piece_def)

lemma wrap_loop_fits:
  "\<forall>w \<in> set ws. sp \<notin> set w \<Longrightarrow>
   (n = 0 \<and> line = [] \<and> ws \<noteq> []) \<or> (0 < n \<and> fits mt b line) \<Longrightarrow>
   \<forall>l \<in> set lines. fits mt b l \<Longrightarrow>
   \<forall>l \<in> set (wrap_loop mt b n ws line lines). fits mt b l"
proof (induction ws arbitrary: n line lines)
  case Nil
  then show ?case by simp
next
  case (Cons w ws)
  from Cons.prems(1) have w: "sp \<notin> set w" and ws: "\<forall>w \<in> set ws. sp \<notin> set w"
    by simp_all
  show ?case
  proof (cases "mt (line @ w @ [sp]) > b \<and> n > 0")
    case True
    with Cons.prems(2) have "fits mt b line" by simp
    with Cons.prems(3) have lines: "\<forall>l \<in> set (lines @ [line]). fits mt b l" by simp
    have "fits mt b (w @ [sp])"
      using w by (simp add: fits_def single_piece_snoc)
    then have "\<forall>l \<in> set (wrap_loop mt b (Suc n) ws (w @ [sp]) (lines @ [line])). fits mt b l"
      by (intro Cons.IH [OF ws _ lines]) simp
    with True show ?thesis by (simp add: Let_def)
  next
    case False
    have "fits mt b (line @ w @ [sp])"
    proof (cases "n = 0")
      case True
      with Cons.prems(2) have "line = []" by simp
      then show ?thesis using w by (simp add: fits_def single_piece_snoc)
    next
      case False
      with \<open>\<not> (mt (line @ w @ [sp]) > b \<and> n > 0)\<close> show ?thesis
        by (simp add: fits_def)
    qed
    then have "\<forall>l \<in> set (wrap_loop mt b (Suc n) ws (line @ w @ [sp]) lines). fits mt b l"
      by (intro Cons.IH [OF ws _ Cons.prems(3)]) simp
    with False show ?thesis by (auto simp: Let_def)
  qed
qed

lemma split_space_no_sp: "\<forall>w \<in> set (split_space c). sp \<notin> set w"
  using split_when_pieces [of "\<lambda>ch. ch = sp" c] by (auto simp: split_space_def)

lemma wrap_text_fits: "\<forall>l \<in> set (wrap_text mt b c). fits mt b l"
  unfolding wrap_text_def
  by (rule wrap_loop_fits) (simp_all add: split_space_no_sp split_space_def)

lemma js_trim_snoc_sp: "js_trim (p @ [sp]) = js_trim p"
proof (cases "\<forall>x \<in> set p. is_ws x")
  case True
  then have a: "dropWhile is_ws p = []" and b: "dropWhile is_ws (p @ [sp]) = []"
    by (simp_all add: dropWhile_eq_Nil_conv)
  show ?thesis by (simp only: js_trim_def a b)
next
  case False
  then have "dropWhile is_ws (p @ [sp]) = dropWhile is_ws p @ [sp]"
    by (metis dropWhile_append1)
  then show ?thesis by (simp add: js_trim_def)
qed

text \<open>
  C3, as the code has it. Every line produced by the wrap is within the budget \<open>0.8 * W\<close>
  as the loop measured it (with its trailing space), unless it holds a single piece of
  \<^verbatim>\<open>text.split(' ')\<close>. When trimming never widens a text under the font's metrics, the
  line as drawn (trimmed) is within the budget unless it is a single piece whose own
  width exceeds the budget. A piece is a run without U+0020; it may contain a tab or
  another whitespace character, and is then several words of the caption.
\<close>

theorem wrapped_lines_within_budget:
  "l \<in> set (wrapped_lines e w c) \<Longrightarrow>
   (measureText e (fontSize w) l \<le> maxWidth w \<or> single_piece l) \<and>
   ((\<forall>s. measureText e (fontSize w) (js_trim s) \<le> measureText e (fontSize w) s) \<longrightarrow>
      measureText e (fontSize w) (js_trim l) \<le> maxWidth w \<or>
      (single_piece l \<and> maxWidth w < measureText e (fontSize w) (butlast l)))"
proof -
  assume l: "l \<in> set (wrapped_lines e w c)"
  let ?mt = "measureText e (fontSize w)"
  have fits: "?mt l \<le> maxWidth w \<or> single_piece l"
    using l wrap_text_fits [of "?mt" "maxWidth w" c]
    by (auto simp: wrapped_lines_def fits_def)
  have "?mt (js_trim l) \<le> maxWidth w \<or> (single_piece l \<and> maxWidth w < ?mt (butlast l))"
    if mono: "\<forall>s. ?mt (js_trim s) \<le> ?mt s"
  proof (cases "?mt l \<le> maxWidth w")
    case True
    with mono have "?mt (js_trim l) \<le> maxWidth w"
      by (meson order_trans)
    then show ?thesis by simp
  next
    case False
    with fits have sl: "single_piece l" by simp
    then have "l = butlast l @ [sp]"
      by (metis single_piece_def append_butlast_last_id)
    then have "js_trim l = js_trim (butlast l)"
      by (metis js_trim_snoc_sp)
    with mono have le: "?mt (js_trim l) \<le> ?mt (butlast l)"
      by simp
    show ?thesis
    proof (cases "maxWidth w < ?mt (butlast l)")
      case True
      with sl show ?thesis by simp
    next
      case False
      with le show ?thesis by simp
    qed
  qed
  with fits show ?thesis by blast
qed

lemma length_js_trim_le: "length (js_trim s) \<le> length s"
proof -
  have "length (js_trim s) \<le> length (dropWhile is_ws s)"
    unfolding js_trim_def using length_dropWhile_le [of is_ws "rev (dropWhile is_ws s)"] by simp
  also have "\<dots> \<le> length s" by (rule length_dropWhile_le)
  finally show ?thesis .
qed

lemma fixed_pitch_trim: "0 \<le> adv \<Longrightarrow> fixed_pitch adv (js_trim s) \<le> fixed_pitch adv s"
  by (simp add: fixed_pitch_def length_js_trim_le mult_left_mono)

theorem wrapped_lines_within_budget_witness:
  "wrapped_lines test_env 100 (ascii ''Go Now Congratulations'')
     = [ascii ''Go Now '', ascii ''Congratulations ''] \<and>
   (\<forall>s. measureText test_env (fontSize 100) (js_trim s) \<le> measureText test_env (fontSize 100) s) \<and>
   maxWidth 100 = 80 \<and>
   measureText test_env (fontSize 100) (js_trim (ascii ''Go Now '')) = 60 \<and>
   single_piece (ascii ''Congratulations '') \<and>
   measureText test_env (fontSize 100) (ascii ''Congratulations'') = 150"
proof -
  have ls: "wrapped_lines test_env 100 (ascii ''Go Now Congratulations'')
     = [ascii ''Go Now '', ascii ''Congratulations '']"
    by (simp add: wrapped_lines_def wrap_text_def split_space_def Let_def test_env_def
        fixed_pitch_def fontSize_def maxWidth_def ascii_def sp_def)
  have mem: "ascii ''Go Now '' \<in> set (wrapped_lines test_env 100 (ascii ''Go Now Congratulations''))"
    by (simp add: ls)
  have mono: "\<forall>s. measureText test_env (fontSize 100) (js_trim s)
      \<le> measureText test_env (fontSize 100) s"
    by (simp add: test_env_def fontSize_def fixed_pitch_trim)
  show ?thesis
    using wrapped_lines_within_budget [OF mem] mono ls
    by (simp add: test_env_def fixed_pitch_def fontSize_def maxWidth_def single_piece_def
        js_trim_def is_ws_def ascii_def sp_def)
qed

text \<open>
  With "word" read as a whitespace-separated word, the claim fails for a caption with a
  tab: at width 100 the budget is 80, the caption \<open>Sale<TAB>Today\<close> stays on one line of
  width 100, and that line holds two words of widths 40 and 50.
\<close>

theorem single_word_overflow_counterexample:
  "wrapped_lines test_env 100 (ascii ''Sale'' @ [9] @ ascii ''Today'')
     = [ascii ''Sale'' @ [9] @ ascii ''Today '']
   \<and> maxWidth 100 = 80
   \<and> measureText test_env (fontSize 100) (js_trim (ascii ''Sale'' @ [9] @ ascii ''Today '')) = 100
   \<and> ws_words (ascii ''Sale'' @ [9] @ ascii ''Today '') = [ascii ''Sale'', ascii ''Today'']
   \<and> measureText test_env (fontSize 100) (ascii ''Sale'') = 40
   \<and> measureText test_env (fontSize 100) (ascii ''Today'') = 50
   \<and> \<not> (\<forall>l \<in> set (wrapped_lines test_env 100 (ascii ''Sale'' @ [9] @ ascii ''Today'')).
          measureText test_env (fontSize 100) (js_trim l) \<le> maxWidth 100
          \<or> (\<exists>x. ws_words l = [x] \<and> maxWidth 100 < measureText test_env (fontSize 100) x))"
  by (simp add: wrapped_lines_def wrap_text_def split_space_def Let_def test_env_def
      fixed_pitch_def fontSize_def maxWidth_def js_trim_def is_ws_def ws_words_def ascii_def sp_def)

section \<open>Font size and line height\<close>

text \<open>
  C9. The font size chosen for an image of width \<open>W\<close> is \<open>max(20, W / 20)\<close>: it is never
  below 20, it is exactly \<open>W / 20\<close> from width 400 on, and it does not shrink when the
  image gets wider.
\<close>

theorem fontSize_max:
  "font_px (render_overlay e img text) = fontSize (width img) \<and>
   fontSize w = max 20 (real w / 20) \<and>
   20 \<le> fontSize w \<and>
   (400 \<le> w \<longrightarrow> fontSize w = real w / 20) \<and>
   (w \<le> w' \<longrightarrow> fontSize w \<le> fontSize w')"
  by (auto simp: fontSize_def render_overlay_def Let_def max_def divide_right_mono)

theorem fontSize_max_witness:
  "(400::nat) \<le> 1024 \<and> (1024::nat) \<le> 2048 \<and>
   font_px (render_overlay test_env \<lparr> src = [], width = 1024, height = 1024 \<rparr> (ascii ''Sale Now''))
     = 1024 / 20 \<and>
   fontSize 1024 \<le> fontSize 2048"
  using fontSize_max [of test_env "\<lparr> src = [], width = 1024, height = 1024 \<rparr>" "ascii ''Sale Now''" 1024 2048]
  by simp

text \<open>
  C4. The line height is 1.2 times the integer part of the font size, not 1.2 times the
  font size: for an image 1024 wide the font size is 51.2, the line height is 61.2, and
  1.2 times the font size is 61.44.
\<close>

theorem lineHeight_truncates_font_size:
  "fontSize 1024 = 256 / 5 \<and> lineHeight 1024 = 306 / 5 \<and>
   fontSize 1024 * (12 / 10) = 1536 / 25 \<and>
   lineHeight 1024 \<noteq> fontSize 1024 * (12 / 10)"
  by (simp add: fontSize_def lineHeight_def parseInt_font_def)

section \<open>Vertical centring\<close>

lemma wrap_loop_not_Nil: "wrap_loop mt b n ws line lines \<noteq> []"
  by (induction ws arbitrary: n line lines) (simp_all add: Let_def)

lemma length_draw_lines: "length (draw_lines x y lh ls) = length ls"
  by (induction ls arbitrary: y) simp_all

lemma nth_draw_lines:
  "i < length ls \<Longrightarrow> draw_lines x y lh ls ! i = FillText (js_trim (ls ! i)) x (y + real i * lh)"
proof (induction ls arbitrary: y i)
  case Nil
  then show ?case by simp
next
  case (Cons l ls)
  show ?case
  proof (cases i)
    case 0
    then show ?thesis by simp
  next
    case (Suc j)
    with Cons.prems have "j < length ls" by simp
    from Cons.IH [OF this, of "y + lh"] Suc show ?thesis
      by (simp add: algebra_simps)
  qed
qed

text \<open>
  C10. For an image of height \<open>H\<close> and a wrap of \<open>N\<close> lines (there is always at least
  one), the text is drawn once per line, in order; the first line is drawn at
  \<open>y = H/2 - (N-1) * lineHeight / 2\<close>, each following line exactly \<open>lineHeight\<close> lower,
  every line at \<open>x = W/2\<close>, and the first and the last line are at equal distances from
  the middle of the canvas.
\<close>

theorem lines_vertically_centred:
  "length (tl (ops (render_overlay e img c))) = length (wrapped_lines e (width img) c) \<and>
   0 < length (wrapped_lines e (width img) c) \<and>
   op_y (tl (ops (render_overlay e img c)) ! 0) =
     real (height img) / 2
       - (real (length (wrapped_lines e (width img) c)) - 1) * lineHeight (width img) / 2 \<and>
   (\<forall>i. Suc i < length (wrapped_lines e (width img) c) \<longrightarrow>
      op_y (tl (ops (render_overlay e img c)) ! Suc i) =
        op_y (tl (ops (render_overlay e img c)) ! i) + lineHeight (width img)) \<and>
   (\<forall>i < length (wrapped_lines e (width img) c).
      tl (ops (render_overlay e img c)) ! i =
        FillText (js_trim (wrapped_lines e (width img) c ! i)) (real (width img) / 2)
          (real (height img) / 2
             - (real (length (wrapped_lines e (width img) c)) - 1) * lineHeight (width img) / 2
             + real i * lineHeight (width img))) \<and>
   (op_y (tl (ops (render_overlay e img c)) ! 0)
      + op_y (tl (ops (render_overlay e img c)) ! (length (wrapped_lines e (width img) c) - 1))) / 2
     = real (height img) / 2"
proof -
  define ls where "ls = wrapped_lines e (width img) c"
  define lh where "lh = lineHeight (width img)"
  define ds where "ds = tl (ops (render_overlay e img c))"
  let ?y = "start_y (height img) (length ls) lh"
  have ds: "ds = draw_lines (real (width img) / 2) ?y lh ls"
    by (simp add: ds_def render_overlay_def Let_def ls_def lh_def)
  have pos: "0 < length ls"
    by (simp add: ls_def wrapped_lines_def wrap_text_def wrap_loop_not_Nil)
  have nth: "ds ! i = FillText (js_trim (ls ! i)) (real (width img) / 2) (?y + real i * lh)"
    if "i < length ls" for i
    using that by (simp add: ds nth_draw_lines)
  have y: "op_y (ds ! i) = ?y + real i * lh" if "i < length ls" for i
    using nth [OF that] by simp
  have step: "op_y (ds ! Suc i) = op_y (ds ! i) + lh" if "Suc i < length ls" for i
    using y [OF that] y [of i] that by (simp add: algebra_simps)
  have last: "op_y (ds ! (length ls - 1)) = ?y + (real (length ls) - 1) * lh"
    using y [of "length ls - 1"] pos by (simp add: of_nat_diff)
  have mid: "(op_y (ds ! 0) + op_y (ds ! (length ls - 1))) / 2 = real (height img) / 2"
    using y [OF pos] last by (simp add: start_y_def field_simps)
  have "length ds = length ls \<and> 0 < length ls \<and>
     op_y (ds ! 0) = real (height img) / 2 - (real (length ls) - 1) * lh / 2 \<and>
     (\<forall>i. Suc i < length ls \<longrightarrow> op_y (ds ! Suc i) = op_y (ds ! i) + lh) \<and>
     (\<forall>i < length ls. ds ! i = FillText (js_trim (ls ! i)) (real (width img) / 2)
         (real (height img) / 2 - (real (length ls) - 1) * lh / 2 + real i * lh)) \<and>
     (op_y (ds ! 0) + op_y (ds ! (length ls - 1))) / 2 = real (height img) / 2"
    using pos y [OF pos] step nth mid by (simp add: ds length_draw_lines start_y_def)
  then show ?thesis
    unfolding ls_def lh_def ds_def .
qed

theorem lines_vertically_centred_witness:
  "wrapped_lines test_env 100 (ascii ''Sale Now Today'')
     = [ascii ''Sale '', ascii ''Now '', ascii ''Today ''] \<and>
   Suc 1 < length (wrapped_lines test_env 100 (ascii ''Sale Now Today'')) \<and>
   lineHeight 100 = 24 \<and>
   tl (ops (render_overlay test_env \<lparr> src = [], width = 100, height = 60 \<rparr> (ascii ''Sale Now Today'')))
     = [FillText (ascii ''Sale'') 50 6, FillText (ascii ''Now'') 50 30, FillText (ascii ''Today'') 50 54]"
  using lines_vertically_centred [of test_env "\<lparr> src = [], width = 100, height = 60 \<rparr>" "ascii ''Sale Now Today''"]
  by (simp add: render_overlay_def wrapped_lines_def wrap_text_def split_space_def Let_def
      test_env_def fixed_pitch_def fontSize_def maxWidth_def lineHeight_def parseInt_font_def
      start_y_def js_trim_def is_ws_def ascii_def sp_def)

section \<open>Validation, outputs and absorbed failures\<close>

lemma data_url_not_Nil [simp]: "data_url b \<noteq> []"
  by (simp add: data_url_def ascii_def)

lemma toDataURL_not_Nil [simp]: "toDataURL e c \<noteq> []"
  by (simp add: toDataURL_def ascii_def)

lemma overlayTextOnImage_not_Nil [simp]: "overlayTextOnImage e (data_url b) c \<noteq> []"
  by (simp add: overlayTextOnImage_def split: option.splits)

lemma output_of_not_Nil [simp]: "output_of e c b \<noteq> []"
  by (simp add: output_of_def)

lemma process_prediction_eq:
  "process_prediction e c p =
     (case bytesBase64Encoded p of
        None \<Rightarrow> None
      | Some b \<Rightarrow> if b \<noteq> [] then Some (output_of e c b) else None)"
  by (simp add: process_prediction_def output_of_def Let_def split: option.splits)

lemma map_callback_eq:
  "map_callback e c en =
     (case en of
        NullEntry \<Rightarrow> Inl (nullReadMessage e)
      | _ \<Rightarrow> Inr (map_option (output_of e c) (payload_of en)))"
  by (cases en) (simp_all add: map_callback_def process_prediction_eq split: option.splits)

lemma promise_all_fulfilled:
  "NullEntry \<notin> set es \<Longrightarrow>
   \<exists>rs. promise_all (map (map_callback e c) es) = Inr rs \<and>
        filter_Boolean rs = map (output_of e c) (retained es)"
proof (induction es)
  case Nil
  then show ?case by (simp add: retained_def List.map_filter_simps)
next
  case (Cons en es)
  then obtain rs where rs: "promise_all (map (map_callback e c) es) = Inr rs"
      "filter_Boolean rs = map (output_of e c) (retained es)"
    by auto
  from Cons.prems have "en \<noteq> NullEntry" by auto
  then have cb: "map_callback e c en = Inr (map_option (output_of e c) (payload_of en))"
    by (cases en) (simp_all add: map_callback_eq)
  show ?case
  proof (cases "payload_of en")
    case None
    with cb rs show ?thesis by (simp add: retained_def List.map_filter_simps)
  next
    case (Some b)
    with cb rs show ?thesis by (simp add: retained_def List.map_filter_simps)
  qed
qed

lemma promise_all_rejected:
  "NullEntry \<in> set es \<Longrightarrow> promise_all (map (map_callback e c) es) = Inl (nullReadMessage e)"
proof (induction es)
  case Nil
  then show ?case by simp
next
  case (Cons en es)
  show ?case
  proof (cases "en = NullEntry")
    case True
    then show ?thesis by (simp add: map_callback_def)
  next
    case False
    with Cons have "promise_all (map (map_callback e c) es) = Inl (nullReadMessage e)"
      by simp
    moreover from False
    have "map_callback e c en = Inr (map_option (output_of e c) (payload_of en))"
      by (cases en) (simp_all add: map_callback_eq)
    ultimately show ?thesis by simp
  qed
qed


text \<open>
  A \<^verbatim>\<open>null\<close> among the predictions fails the whole batch: no image is shown and the
  error banner gets the message of the TypeError (or the fallback text).
\<close>

lemma null_entry_fails_batch:
  assumes "js_trim (prompt st) \<noteq> []" and "js_trim (apiKey st) \<noteq> []"
    and "NullEntry \<in> set (entries_of (fetch e (make_request st)))"
  shows "generatedImages (fst (generateImages e st)) = [] \<and>
     error (fst (generateImages e st))
       = or_else (nullReadMessage e) (ascii ''An unexpected error occurred during image generation.'') \<and>
     error (fst (generateImages e st)) \<noteq> []"
proof -
  from assms(3) obtain es0 where r0: "fetch e (make_request st) = Predictions (Some es0)"
    and n0: "NullEntry \<in> set es0"
    by (cases "fetch e (make_request st)") (auto simp: entries_of_def split: option.splits)
  from n0 obtain en es where "es0 = en # es"
    by (cases es0) auto
  with r0 n0 have r: "fetch e (make_request st) = Predictions (Some (en # es))"
    and n: "NullEntry \<in> set (en # es)"
    by simp_all
  from promise_all_rejected [OF n]
  have "promise_all (map (map_callback e (customText st)) (en # es)) = Inl (nullReadMessage e)" .
  with assms(1,2) r show ?thesis
    by (simp add: generateImages_def Let_def or_else_def ascii_def)
qed

lemma generatedImages_valid:
  assumes "js_trim (prompt st) \<noteq> []" and "js_trim (apiKey st) \<noteq> []"
  shows "generatedImages (fst (generateImages e st))
     = map (output_of e (customText st)) (retained (predictions_of (fetch e (make_request st))))"
proof (cases "NullEntry \<in> set (entries_of (fetch e (make_request st)))")
  case True
  with null_entry_fails_batch [OF assms this] show ?thesis
    by (simp add: predictions_of_def retained_def List.map_filter_simps)
next
  case False
  show ?thesis
  proof (cases "fetch e (make_request st)")
    case (Transport msg)
    with assms show ?thesis
      by (simp add: generateImages_def Let_def predictions_of_def entries_of_def retained_def
          List.map_filter_simps)
  next
    case (Rejected m)
    with assms show ?thesis
      by (simp add: generateImages_def Let_def predictions_of_def entries_of_def retained_def
          List.map_filter_simps)
  next
    case (Predictions r)
    show ?thesis
    proof (cases r)
      case None
      with Predictions assms show ?thesis
        by (simp add: generateImages_def Let_def predictions_of_def entries_of_def retained_def
          List.map_filter_simps)
    next
      case (Some es)
      show ?thesis
      proof (cases es)
        case Nil
        with Some Predictions assms show ?thesis
          by (simp add: generateImages_def Let_def predictions_of_def entries_of_def retained_def
              List.map_filter_simps)
      next
        case (Cons en es')
        with Some Predictions False have nn: "NullEntry \<notin> set (en # es')"
          by (simp add: entries_of_def)
        from promise_all_fulfilled [OF nn, of e "customText st"]
        obtain rs where rs: "promise_all (map (map_callback e (customText st)) (en # es')) = Inr rs"
          "filter_Boolean rs = map (output_of e (customText st)) (retained (en # es'))"
          by blast
        have "generatedImages (fst (generateImages e st)) = filter_Boolean rs"
          using Cons Some Predictions assms rs(1) by (simp add: generateImages_def Let_def)
        with rs(2) nn show ?thesis
          using Cons Some Predictions by (simp add: predictions_of_def entries_of_def)
      qed
    qed
  qed
qed

text \<open>On a reply from which images are made, the banner stays empty and the notice is untouched.\<close>

lemma banner_untouched:
  assumes "js_trim (prompt st) \<noteq> []" and "js_trim (apiKey st) \<noteq> []"
    and "predictions_of (fetch e (make_request st)) \<noteq> []"
  shows "error (fst (generateImages e st)) = [] \<and>
     message (fst (generateImages e st)) = message st"
proof -
  from assms(3) have nn: "NullEntry \<notin> set (entries_of (fetch e (make_request st)))"
    and ne: "entries_of (fetch e (make_request st)) \<noteq> []"
    by (auto simp: predictions_of_def split: if_splits)
  from ne obtain es0 where r0: "fetch e (make_request st) = Predictions (Some es0)"
    and ne0: "es0 \<noteq> []"
    by (cases "fetch e (make_request st)") (auto simp: entries_of_def split: option.splits)
  from ne0 obtain en es where "es0 = en # es"
    by (cases es0) auto
  with r0 have r: "fetch e (make_request st) = Predictions (Some (en # es))"
    by simp
  with nn have "NullEntry \<notin> set (en # es)" by (simp add: entries_of_def)
  from promise_all_fulfilled [OF this, of e "customText st"]
  obtain rs where "promise_all (map (map_callback e (customText st)) (en # es)) = Inr rs"
    by blast
  with assms(1,2) r show ?thesis
    by (simp add: generateImages_def Let_def)
qed

text \<open>
  The reply \<^verbatim>\<open>{"predictions": [null, {"bytesBase64Encoded": "AAAA"}]}\<close>: nothing is
  shown and the banner carries the TypeError's message. The reply
  \<^verbatim>\<open>{"predictions": [{"bytesBase64Encoded": []}, {"bytesBase64Encoded": 0}]}\<close> with a
  blank caption: the empty array is truthy and gives the URL \<^verbatim>\<open>data:image/png;base64,\<close>,
  the zero is dropped.
\<close>

lemma null_entry_example:
  "generateImages
     (test_env\<lparr>fetch := (\<lambda>r. Predictions (Some [NullEntry, Entry (Prediction (Some (ascii ''AAAA'')))]))\<rparr>)
     test_state
   = (test_state\<lparr>error := ascii ''Cannot read properties of null''\<rparr>, [make_request test_state])"
  by (simp add: generateImages_def Let_def test_env_def test_state_def map_callback_def
      process_prediction_def or_else_def js_trim_def is_ws_def ascii_def)

lemma other_payload_example:
  "generatedImages (fst (generateImages
     (test_env\<lparr>fetch := (\<lambda>r. Predictions (Some [OtherPayload True [], OtherPayload False (ascii ''0'')]))\<rparr>)
     (test_state\<lparr>customText := []\<rparr>)))
   = [ascii ''data:image/png;base64,'']"
  by (simp add: generateImages_def Let_def test_env_def test_state_def map_callback_def
      output_of_def data_url_def js_trim_def is_ws_def ascii_def)

lemma js_trim_blank: "list_all is_ws c \<Longrightarrow> js_trim c = []"
proof -
  assume "list_all is_ws c"
  then have d: "dropWhile is_ws c = []"
    by (induction c) simp_all
  show ?thesis by (simp only: js_trim_def d) simp
qed

lemma notices_not_Nil: "prompt_notice \<noteq> []" "apiKey_notice \<noteq> []"
  by (simp_all add: prompt_notice_def apiKey_notice_def ascii_def)




text \<open>
  C6. With a caption that is empty or consists of whitespace only, every retained
  prediction is shown as the data URL of its own payload, unchanged: the result does
  not depend on the decoder, the text metrics or the encoder, so no overlay is made.
\<close>

theorem blank_caption_passes_through:
  "list_all is_ws c \<longrightarrow>
     process_prediction e c (Prediction (Some b)) = (if b \<noteq> [] then Some (data_url b) else None) \<and>
     (js_trim (prompt st) \<noteq> [] \<and> js_trim (apiKey st) \<noteq> [] \<and> customText st = c \<longrightarrow>
        generatedImages (fst (generateImages e st))
          = map data_url (retained (predictions_of (fetch e (make_request st)))))"
proof
  assume "list_all is_ws c"
  then have blank: "js_trim c = []" by (rule js_trim_blank)
  then have one: "process_prediction e c (Prediction (Some b))
      = (if b \<noteq> [] then Some (data_url b) else None)"
    by (simp add: process_prediction_def)
  have out: "output_of e c = data_url"
    using blank by (simp add: output_of_def fun_eq_iff)
  have "generatedImages (fst (generateImages e st))
          = map data_url (retained (predictions_of (fetch e (make_request st))))"
    if "js_trim (prompt st) \<noteq> [] \<and> js_trim (apiKey st) \<noteq> [] \<and> customText st = c"
    using that generatedImages_valid [of st e] out by simp
  with one show "process_prediction e c (Prediction (Some b))
       = (if b \<noteq> [] then Some (data_url b) else None) \<and>
     (js_trim (prompt st) \<noteq> [] \<and> js_trim (apiKey st) \<noteq> [] \<and> customText st = c \<longrightarrow>
        generatedImages (fst (generateImages e st))
          = map data_url (retained (predictions_of (fetch e (make_request st)))))"
    by blast
qed

theorem blank_caption_passes_through_witness:
  "list_all is_ws blank_caption \<and>
   process_prediction test_env blank_caption (Prediction (Some (ascii ''iVBORw0KGgo='')))
     = Some (ascii ''data:image/png;base64,iVBORw0KGgo='') \<and>
   generatedImages (fst (generateImages test_env (test_state\<lparr>customText := blank_caption\<rparr>)))
     = [ascii ''data:image/png;base64,iVBORw0KGgo='',
        ascii ''data:image/png;base64,R0lGODlhAQABAA=='']"
proof -
  have ws: "list_all is_ws blank_caption"
    by (simp add: blank_caption_def is_ws_def)
  have p: "js_trim (prompt (test_state\<lparr>customText := blank_caption\<rparr>)) \<noteq> []"
    and k: "js_trim (apiKey (test_state\<lparr>customText := blank_caption\<rparr>)) \<noteq> []"
    by (simp_all add: test_state_def js_trim_def is_ws_def ascii_def)
  have r: "retained (predictions_of (fetch test_env
        (make_request (test_state\<lparr>customText := blank_caption\<rparr>))))
     = [ascii ''iVBORw0KGgo='', ascii ''R0lGODlhAQABAA=='']"
    by (simp add: predictions_of_def entries_of_def test_env_def retained_def
        List.map_filter_simps ascii_def)
  note inst = blank_caption_passes_through [of blank_caption test_env _
      "test_state\<lparr>customText := blank_caption\<rparr>"]
  from inst [of "ascii ''iVBORw0KGgo=''"] ws
  have one: "process_prediction test_env blank_caption (Prediction (Some (ascii ''iVBORw0KGgo='')))
     = Some (data_url (ascii ''iVBORw0KGgo=''))"
    by (simp add: ascii_def)
  from inst [of "[]"] ws p k
  have "generatedImages (fst (generateImages test_env (test_state\<lparr>customText := blank_caption\<rparr>)))
     = map data_url (retained (predictions_of (fetch test_env
        (make_request (test_state\<lparr>customText := blank_caption\<rparr>)))))"
    by simp
  then have out: "generatedImages (fst (generateImages test_env (test_state\<lparr>customText := blank_caption\<rparr>)))
     = [data_url (ascii ''iVBORw0KGgo=''), data_url (ascii ''R0lGODlhAQABAA=='')]"
    unfolding r by simp
  show ?thesis
    using ws one out by (simp add: data_url_def ascii_def)
qed

text \<open>
  C7. When the image does not decode, \<^verbatim>\<open>overlayTextOnImage\<close> resolves with the URL it was
  given; it always resolves with a non-empty URL. Whatever the decoder does, a reply
  with predictions leaves the error banner empty and the notice untouched, and when no
  image decodes the images shown are the undecorated payloads.
\<close>

theorem decode_failure_returns_original:
  "(decode e imageUrl = None \<longrightarrow> overlayTextOnImage e imageUrl c = imageUrl) \<and>
   overlayTextOnImage e (data_url b) c \<noteq> [] \<and>
   (js_trim (prompt st) \<noteq> [] \<and> js_trim (apiKey st) \<noteq> [] \<and>
    predictions_of (fetch e (make_request st)) \<noteq> [] \<longrightarrow>
      error (fst (generateImages e st)) = [] \<and>
      message (fst (generateImages e st)) = message st \<and>
      ((\<forall>u. decode e u = None) \<longrightarrow>
         generatedImages (fst (generateImages e st))
           = map data_url (retained (predictions_of (fetch e (make_request st))))))"
proof (intro conjI impI)
  show "overlayTextOnImage e imageUrl c = imageUrl" if "decode e imageUrl = None"
    using that by (simp add: overlayTextOnImage_def)
  show "overlayTextOnImage e (data_url b) c \<noteq> []"
    by simp
next
  assume a: "js_trim (prompt st) \<noteq> [] \<and> js_trim (apiKey st) \<noteq> [] \<and>
    predictions_of (fetch e (make_request st)) \<noteq> []"
  then show "error (fst (generateImages e st)) = []"
    using banner_untouched [of st e] by simp
  from a show "message (fst (generateImages e st)) = message st"
    using banner_untouched [of st e] by simp
  assume d: "\<forall>u. decode e u = None"
  then have "output_of e (customText st) = data_url"
    by (simp add: output_of_def overlayTextOnImage_def fun_eq_iff)
  with a show "generatedImages (fst (generateImages e st))
           = map data_url (retained (predictions_of (fetch e (make_request st))))"
    using generatedImages_valid [of st e] by simp
qed

theorem decode_failure_returns_original_witness:
  "decode undecodable_env (data_url (ascii ''AAAA'')) = None \<and>
   overlayTextOnImage undecodable_env (data_url (ascii ''AAAA'')) (ascii ''Sale Now'')
     = data_url (ascii ''AAAA'') \<and>
   js_trim (prompt test_state) \<noteq> [] \<and> js_trim (apiKey test_state) \<noteq> [] \<and>
   predictions_of (fetch undecodable_env (make_request test_state)) \<noteq> [] \<and>
   (\<forall>u. decode undecodable_env u = None) \<and>
   error (fst (generateImages undecodable_env test_state)) = [] \<and>
   generatedImages (fst (generateImages undecodable_env test_state))
     = map data_url [ascii ''AAAA'', ascii ''BBBB'', ascii ''CCCC'', ascii ''DDDD'']"
proof -
  have d: "\<forall>u. decode undecodable_env u = None"
    by (simp add: undecodable_env_def)
  have p: "js_trim (prompt test_state) \<noteq> []" and k: "js_trim (apiKey test_state) \<noteq> []"
    by (simp_all add: test_state_def js_trim_def is_ws_def ascii_def)
  have ps: "predictions_of (fetch undecodable_env (make_request test_state)) \<noteq> []"
    by (simp add: predictions_of_def entries_of_def undecodable_env_def)
  have r: "retained (predictions_of (fetch undecodable_env (make_request test_state)))
     = [ascii ''AAAA'', ascii ''BBBB'', ascii ''CCCC'', ascii ''DDDD'']"
    by (simp add: predictions_of_def entries_of_def undecodable_env_def retained_def
        List.map_filter_simps ascii_def)
  note inst = decode_failure_returns_original [of undecodable_env "data_url (ascii ''AAAA'')"
      "ascii ''Sale Now''" "[]" test_state]
  from inst d have one: "overlayTextOnImage undecodable_env (data_url (ascii ''AAAA'')) (ascii ''Sale Now'')
     = data_url (ascii ''AAAA'')"
    by simp
  from inst d p k ps have err: "error (fst (generateImages undecodable_env test_state)) = []"
    and out: "generatedImages (fst (generateImages undecodable_env test_state))
     = map data_url (retained (predictions_of (fetch undecodable_env (make_request test_state))))"
    by simp_all
  show ?thesis
    using d p k ps one err out unfolding r by simp
qed

text \<open>
  C8. When the prompt or the key is empty after trimming, \<^verbatim>\<open>generateImages\<close> issues no
  request and only sets the notice (to a non-empty text, which \<^verbatim>\<open>handleCloseMessage\<close>
  clears); the error banner, the images and the loading flag are untouched. A request
  is issued exactly when both are non-empty after trimming, and then exactly one.
\<close>

theorem validation_blocks_request:
  "(js_trim (prompt st) = [] \<longrightarrow> generateImages e st = (st\<lparr>message := prompt_notice\<rparr>, [])) \<and>
   (js_trim (prompt st) \<noteq> [] \<and> js_trim (apiKey st) = [] \<longrightarrow>
      generateImages e st = (st\<lparr>message := apiKey_notice\<rparr>, [])) \<and>
   (js_trim (prompt st) = [] \<or> js_trim (apiKey st) = [] \<longrightarrow>
      snd (generateImages e st) = [] \<and>
      message (fst (generateImages e st)) \<noteq> [] \<and>
      error (fst (generateImages e st)) = error st \<and>
      generatedImages (fst (generateImages e st)) = generatedImages st \<and>
      loading (fst (generateImages e st)) = loading st \<and>
      message (handleCloseMessage (fst (generateImages e st))) = []) \<and>
   (js_trim (prompt st) \<noteq> [] \<and> js_trim (apiKey st) \<noteq> [] \<longrightarrow>
      snd (generateImages e st) = [make_request st]) \<and>
   (snd (generateImages e st) \<noteq> [] \<longleftrightarrow> js_trim (prompt st) \<noteq> [] \<and> js_trim (apiKey st) \<noteq> [])"
  by (simp add: generateImages_def Let_def handleCloseMessage_def notices_not_Nil)

theorem validation_blocks_request_witness:
  "js_trim (prompt (test_state\<lparr>prompt := ascii ''   ''\<rparr>)) = [] \<and>
   generateImages test_env (test_state\<lparr>prompt := ascii ''   ''\<rparr>)
     = (test_state\<lparr>prompt := ascii ''   '', message := prompt_notice\<rparr>, []) \<and>
   js_trim (prompt (test_state\<lparr>apiKey := []\<rparr>)) \<noteq> [] \<and>
   js_trim (apiKey (test_state\<lparr>apiKey := []\<rparr>)) = [] \<and>
   generateImages test_env (test_state\<lparr>apiKey := []\<rparr>)
     = (test_state\<lparr>apiKey := [], message := apiKey_notice\<rparr>, []) \<and>
   js_trim (prompt test_state) \<noteq> [] \<and> js_trim (apiKey test_state) \<noteq> [] \<and>
   snd (generateImages test_env test_state) = [make_request test_state]"
proof -
  have a: "js_trim (prompt (test_state\<lparr>prompt := ascii ''   ''\<rparr>)) = []"
    by (simp add: js_trim_def is_ws_def ascii_def)
  have b: "js_trim (prompt (test_state\<lparr>apiKey := []\<rparr>)) \<noteq> []"
    "js_trim (apiKey (test_state\<lparr>apiKey := []\<rparr>)) = []"
    by (simp_all add: test_state_def js_trim_def is_ws_def ascii_def)
  have c: "js_trim (prompt test_state) \<noteq> []" "js_trim (apiKey test_state) \<noteq> []"
    by (simp_all add: test_state_def js_trim_def is_ws_def ascii_def)
  show ?thesis
    using a b c
      validation_blocks_request [of "test_state\<lparr>prompt := ascii ''   ''\<rparr>" test_env]
      validation_blocks_request [of "test_state\<lparr>apiKey := []\<rparr>" test_env]
      validation_blocks_request [of test_state test_env]
    by simp
qed

end
